theory Spec2Isabelle
  imports Main
begin

section \<open>Python strings\<close>

text \<open>
  The script \<^verbatim>\<open>test-project/scripts/env_setup.py\<close> reads one environment variable,
  splits it at whitespace, hands the tokens to an \<^verbatim>\<open>argparse.ArgumentParser\<close> with the
  single option \<^verbatim>\<open>--name\<close> and prints a greeting. A Python \<^verbatim>\<open>str\<close> is modelled as a
  \<^typ>\<open>string\<close>; a \<^typ>\<open>char\<close> stands for the code point of the same number (0 to 255).
\<close>

definition isspace :: "char \<Rightarrow> bool" where
  \<comment> \<open>\<^verbatim>\<open>str.isspace\<close> on the code points below 256: TAB to CR, FS to US, space, NEL, NBSP.\<close>
  "isspace c =
     (let n = (of_char c :: nat)
      in (9 \<le> n \<and> n \<le> 13) \<or> (28 \<le> n \<and> n \<le> 32) \<or> n = 133 \<or> n = 160)"

fun split_from :: "string \<Rightarrow> string \<Rightarrow> string list" where
  \<comment> \<open>the scan of \<^verbatim>\<open>str.split()\<close>: \<open>tok\<close> is the token being collected\<close>
  "split_from tok [] = (if tok = [] then [] else [tok])"
| "split_from tok (c # cs) =
     (if isspace c then (if tok = [] then split_from [] cs else tok # split_from [] cs)
      else split_from (tok @ [c]) cs)"

definition str_split :: "string \<Rightarrow> string list" where
  \<comment> \<open>\<^verbatim>\<open>s.split()\<close> with no separator: maximal runs of non-whitespace\<close>
  "str_split s = split_from [] s"

definition str_partition :: "char \<Rightarrow> string \<Rightarrow> string \<times> string \<times> string" where
  \<comment> \<open>\<^verbatim>\<open>s.partition(c)\<close>: the part before the first \<open>c\<close>, the separator found (or empty), the rest\<close>
  "str_partition c s =
     (case dropWhile (\<lambda>x. x \<noteq> c) s of
        [] \<Rightarrow> (s, [], [])
      | x # after \<Rightarrow> (takeWhile (\<lambda>x. x \<noteq> c) s, [x], after))"

definition startswith :: "string \<Rightarrow> string \<Rightarrow> bool" where
  "startswith s p = (take (length p) s = p)"

definition isdigit :: "char \<Rightarrow> bool" where
  \<comment> \<open>the regular expression class \<^verbatim>\<open>\d\<close> on the code points below 256\<close>
  "isdigit c = (let n = (of_char c :: nat) in 48 \<le> n \<and> n \<le> 57)"

definition negative_number_core :: "string \<Rightarrow> bool" where
  \<comment> \<open>a minus sign, then digits, or digits (maybe none), a dot and at least one digit\<close>
  "negative_number_core s =
     (case s of
        [] \<Rightarrow> False
      | c # ds \<Rightarrow>
          c = CHR ''-'' \<and>
          (case dropWhile isdigit ds of
             [] \<Rightarrow> ds \<noteq> []
           | d # frac \<Rightarrow> d = CHR ''.'' \<and> frac \<noteq> [] \<and> list_all isdigit frac))"

definition negative_number_matcher :: "string \<Rightarrow> bool" where
  \<comment> \<open>\<^verbatim>\<open>re.match(r'^-\d+$|^-\d*\.\d+$', s)\<close>; \<^verbatim>\<open>$\<close> also matches before a final newline\<close>
  "negative_number_matcher s =
     (negative_number_core s \<or>
      (s \<noteq> [] \<and> last s = CHR 0x0A \<and> negative_number_core (butlast s)))"

section \<open>The argument parser\<close>

text \<open>
  \<^verbatim>\<open>argparse.ArgumentParser()\<close> registers the help action under \<^verbatim>\<open>-h\<close> and \<^verbatim>\<open>--help\<close>
  (\<^verbatim>\<open>add_help=True\<close>), and \<^verbatim>\<open>add_argument('--name', type=str)\<close> a store action with
  \<^verbatim>\<open>nargs=None\<close>. Abbreviations are allowed (\<^verbatim>\<open>allow_abbrev=True\<close>), the only prefix
  character is the minus sign, and there is no positional argument. The definitions
  follow \<^verbatim>\<open>argparse.py\<close> as released with CPython 3.11.10, function by function (3.12.3
  behaves the same). The script names no interpreter, and earlier releases differ in two
  places: they take the explicit argument \<^verbatim>\<open>--\<close> of an option (\<^verbatim>\<open>--name=--\<close>) away before
  storing it, so that the empty list is stored, and they split a cluster after the help
  flag (\<^verbatim>\<open>-hx\<close>, \<^verbatim>\<open>-h=x\<close>) differently. The theorems below that depend on the parser
  either take what \<^verbatim>\<open>parse_known_args\<close> returns as their hypothesis or are about tokens on
  which the releases agree.
\<close>

datatype action = HelpAction | NameAction

datatype argument_error =
    ExpectedOneArgument action
  | IgnoredExplicitArgument action string
  | AmbiguousOption string "string list"
  | UnexpectedOptionString string

datatype exc =
    ParserError argument_error
      \<comment> \<open>\<^verbatim>\<open>parser.error(msg)\<close>: usage and message on stderr, then \<^verbatim>\<open>SystemExit(2)\<close>\<close>
  | HelpExit
      \<comment> \<open>the help action: help on stdout, then \<^verbatim>\<open>SystemExit(0)\<close>\<close>
  | IndexError
      \<comment> \<open>an index past the end of a string: an uncaught exception\<close>
  | UnicodeEncodeError
      \<comment> \<open>a write of text that the stream cannot encode: an uncaught exception\<close>
  | NotOneValue
      \<comment> \<open>a store action handed other than one value (a list would be stored)\<close>

type_synonym option_tuple = "action option \<times> string \<times> string option \<times> string option"
  \<comment> \<open>action, option string, separator, explicit argument\<close>

definition prefix_chars :: string where
  "prefix_chars = ''-''"

definition allow_abbrev :: bool where
  "allow_abbrev = True"

definition has_negative_number_optionals :: bool where
  \<comment> \<open>no option string of this parser looks like a negative number\<close>
  "has_negative_number_optionals = False"

definition option_string_actions :: "(string \<times> action) list" where
  \<comment> \<open>the dictionary \<^verbatim>\<open>_option_string_actions\<close>, in insertion order\<close>
  "option_string_actions =
     [(''-h'', HelpAction), (''--help'', HelpAction), (''--name'', NameAction)]"

fun get_option_tuples :: "string \<Rightarrow> exc + option_tuple list" where
  \<comment> \<open>\<^verbatim>\<open>_get_option_tuples\<close>: the options that the string abbreviates. It reads
      \<^verbatim>\<open>option_string[0]\<close> and, when that is a prefix character, \<^verbatim>\<open>option_string[1]\<close>:
      the empty string and a lone prefix character raise, any other single character
      reaches the last branch.\<close>
  "get_option_tuples (c0 # c1 # cs) =
     (let option_string = c0 # c1 # cs in
      if c0 \<in> set prefix_chars \<and> c1 \<in> set prefix_chars then
        (if allow_abbrev then
           (let (option_prefix, sep, explicit_arg) = str_partition CHR ''='' option_string;
                sep' = (if sep = [] then None else Some sep);
                explicit_arg' = (if sep = [] then None else Some explicit_arg)
            in Inr (map (\<lambda>(os, a). (Some a, os, sep', explicit_arg'))
                     (filter (\<lambda>(os, a). startswith os option_prefix) option_string_actions)))
         else Inr [])
      else if c0 \<in> set prefix_chars \<and> c1 \<notin> set prefix_chars then
        (let option_prefix = option_string;
             short_option_prefix = take 2 option_string;
             short_explicit_arg = drop 2 option_string
         in Inr (concat (map (\<lambda>(os, a).
                   if os = short_option_prefix then [(Some a, os, Some [], Some short_explicit_arg)]
                   else if startswith os option_prefix then [(Some a, os, None, None)]
                   else []) option_string_actions)))
      else Inl (ParserError (UnexpectedOptionString option_string)))"
| "get_option_tuples [c0] =
     (if c0 \<in> set prefix_chars then Inl IndexError
      else Inl (ParserError (UnexpectedOptionString [c0])))"
| "get_option_tuples [] = Inl IndexError"

definition parse_optional :: "string \<Rightarrow> exc + option_tuple option" where
  \<comment> \<open>\<^verbatim>\<open>_parse_optional\<close>: \<open>None\<close> for a positional argument, an option tuple for an option
      (with no action when the parser does not know it), or the error of an ambiguous
      abbreviation\<close>
  "parse_optional arg_string =
     (if arg_string = [] then Inr None
      else if hd arg_string \<notin> set prefix_chars then Inr None
      else case map_of option_string_actions arg_string of
        Some a \<Rightarrow> Inr (Some (Some a, arg_string, None, None))
      | None \<Rightarrow>
         if length arg_string = 1 then Inr None
         else
          (let (option_string, sep, explicit_arg) = str_partition CHR ''='' arg_string in
           case (if sep \<noteq> [] then map_of option_string_actions option_string else None) of
             Some a \<Rightarrow> Inr (Some (Some a, option_string, Some sep, Some explicit_arg))
           | None \<Rightarrow>
              (case get_option_tuples arg_string of
                 Inl e \<Rightarrow> Inl e
               | Inr option_tuples \<Rightarrow>
                  if length option_tuples > 1 then
                    Inl (ParserError
                          (AmbiguousOption arg_string (map (\<lambda>(a, os, s, e). os) option_tuples)))
                  else if length option_tuples = 1 then Inr (Some (hd option_tuples))
                  else if negative_number_matcher arg_string
                          \<and> \<not> has_negative_number_optionals then Inr None
                  else if CHR '' '' \<in> set arg_string then Inr None
                  else Inr (Some (None, arg_string, None, None)))))"

datatype pat = Pat_A | Pat_O option_tuple | Pat_Dash
  \<comment> \<open>one letter of \<^verbatim>\<open>arg_strings_pattern\<close>: \<^verbatim>\<open>A\<close>, \<^verbatim>\<open>O\<close> (with its entry of
      \<^verbatim>\<open>option_string_indices\<close>) or \<^verbatim>\<open>-\<close>\<close>

fun arg_string_pattern_parts :: "string list \<Rightarrow> exc + (string \<times> pat) list" where
  \<comment> \<open>the first loop of \<^verbatim>\<open>_parse_known_args\<close>: every argument string with its letter\<close>
  "arg_string_pattern_parts [] = Inr []"
| "arg_string_pattern_parts (arg_string # rest) =
     (if arg_string = ''--'' then
        Inr ((arg_string, Pat_Dash) # map (\<lambda>s. (s, Pat_A)) rest)
      else
        (case parse_optional arg_string of
           Inl e \<Rightarrow> Inl e
         | Inr option_tuple \<Rightarrow>
            (case arg_string_pattern_parts rest of
               Inl e \<Rightarrow> Inl e
             | Inr parts \<Rightarrow>
                Inr ((arg_string,
                      (case option_tuple of None \<Rightarrow> Pat_A | Some t \<Rightarrow> Pat_O t)) # parts))))"

fun match_argument :: "action \<Rightarrow> pat list \<Rightarrow> exc + nat" where
  \<comment> \<open>\<^verbatim>\<open>nargs=0\<close> gives the pattern \<^verbatim>\<open>()\<close>, which matches anything with no argument;
      \<^verbatim>\<open>nargs=None\<close> gives \<^verbatim>\<open>(A)\<close>, which needs an \<^verbatim>\<open>A\<close> first\<close>
  "match_argument HelpAction ps = Inr 0"
| "match_argument NameAction (Pat_A # ps) = Inr 1"
| "match_argument NameAction ps = Inl (ParserError (ExpectedOneArgument NameAction))"

record namespace =
  name :: "string option"

type_synonym action_tuple = "action \<times> string list \<times> string"

definition truthy :: "string option \<Rightarrow> bool" where
  \<comment> \<open>Python's truth value of \<^verbatim>\<open>None\<close> or a string\<close>
  "truthy v = (case v of None \<Rightarrow> False | Some s \<Rightarrow> s \<noteq> [])"

function optional_loop ::
  "string \<Rightarrow> (string \<times> pat) list \<Rightarrow> action option \<Rightarrow> string \<Rightarrow> string option
     \<Rightarrow> string option \<Rightarrow> action_tuple list \<Rightarrow> exc + (action_tuple list \<times> string list \<times> nat)"
where
  \<comment> \<open>the \<^verbatim>\<open>while True\<close> loop of \<^verbatim>\<open>consume_optional\<close>. \<open>arg_string\<close> is
      \<^verbatim>\<open>arg_strings[start_index]\<close>, \<open>following\<close> the argument strings after it with
      their letters. The result: the action tuples, the strings added to \<^verbatim>\<open>extras\<close>,
      and how many of the following strings are consumed (\<^verbatim>\<open>stop - (start_index + 1)\<close>).
      The branch of the explicit argument (the test of \<open>sep\<close>, the unknown tail of a
      cluster going to \<^verbatim>\<open>extras\<close>) is the one of 3.11.10; with the options of this parser
      it is entered again only after the help flag.\<close>
  "optional_loop arg_string following action option_string sep explicit_arg action_tuples =
     (case action of
        None \<Rightarrow> Inr ([], [arg_string], 0)
      | Some a \<Rightarrow>
         (case explicit_arg of
            Some ea \<Rightarrow>
              (case match_argument a [Pat_A] of
                 Inl e \<Rightarrow> Inl e
               | Inr arg_count \<Rightarrow>
                  if arg_count = 0 \<and> length option_string < 2 then Inl IndexError
                  else if arg_count = 0 \<and> option_string ! 1 \<notin> set prefix_chars \<and> ea \<noteq> [] then
                    (if truthy sep \<or> hd ea \<in> set prefix_chars then
                       Inl (ParserError (IgnoredExplicitArgument a ea))
                     else
                       (let action_tuples' = action_tuples @ [(a, [], option_string)];
                            char = hd option_string;
                            option_string' = [char, hd ea]
                        in case map_of option_string_actions option_string' of
                             Some a' \<Rightarrow>
                               (let ea' = tl ea in
                                if ea' = [] then
                                  optional_loop arg_string following (Some a') option_string'
                                    None None action_tuples'
                                else if hd ea' = CHR ''='' then
                                  optional_loop arg_string following (Some a') option_string'
                                    (Some ''='') (Some (tl ea')) action_tuples'
                                else
                                  optional_loop arg_string following (Some a') option_string'
                                    (Some []) (Some ea') action_tuples')
                           | None \<Rightarrow> Inr (action_tuples', [char # ea], 0)))
                  else if arg_count = 1 then
                    Inr (action_tuples @ [(a, [ea], option_string)], [], 0)
                  else Inl (ParserError (IgnoredExplicitArgument a ea)))
          | None \<Rightarrow>
              (case match_argument a (map snd following) of
                 Inl e \<Rightarrow> Inl e
               | Inr arg_count \<Rightarrow>
                  Inr (action_tuples @ [(a, take arg_count (map fst following), option_string)],
                       [], arg_count))))"
  by pat_completeness auto
termination
  by (relation "measure (\<lambda>(arg_string, following, action, option_string, sep, explicit_arg,
          action_tuples). case explicit_arg of None \<Rightarrow> 0 | Some ea \<Rightarrow> Suc (length ea))")
     (auto split: if_splits)

fun take_action :: "action \<Rightarrow> string list \<Rightarrow> namespace \<Rightarrow> exc + namespace" where
  \<comment> \<open>the help action prints the help and exits; the store action sets \<^verbatim>\<open>name\<close> to its
      one value (\<^verbatim>\<open>type=str\<close> leaves the string as it is). In 3.11.10 \<^verbatim>\<open>_get_values\<close>
      takes \<^verbatim>\<open>--\<close> away for positional actions only, so the explicit argument
      \<^verbatim>\<open>--\<close> is stored like any other value.\<close>
  "take_action HelpAction argument_strings ns = Inl HelpExit"
| "take_action NameAction [arg_string] ns = Inr (ns\<lparr>name := Some arg_string\<rparr>)"
| "take_action NameAction argument_strings ns = Inl NotOneValue"

fun take_actions :: "action_tuple list \<Rightarrow> namespace \<Rightarrow> exc + namespace" where
  \<comment> \<open>\<^verbatim>\<open>for action, args, option_string in action_tuples: take_action(...)\<close>\<close>
  "take_actions [] ns = Inr ns"
| "take_actions ((a, args, option_string) # ts) ns =
     (case take_action a args ns of Inl e \<Rightarrow> Inl e | Inr ns' \<Rightarrow> take_actions ts ns')"

definition consume_optional ::
  "string \<Rightarrow> option_tuple \<Rightarrow> (string \<times> pat) list \<Rightarrow> namespace
     \<Rightarrow> exc + (namespace \<times> string list \<times> nat)"
where
  \<comment> \<open>\<^verbatim>\<open>consume_optional(start_index)\<close>: the loop, then the actions it collected, in order\<close>
  "consume_optional arg_string option_tuple following ns =
     (let (action, option_string, sep, explicit_arg) = option_tuple in
      case optional_loop arg_string following action option_string sep explicit_arg [] of
        Inl e \<Rightarrow> Inl e
      | Inr (action_tuples, new_extras, stop) \<Rightarrow>
         (case take_actions action_tuples ns of
            Inl e \<Rightarrow> Inl e
          | Inr ns' \<Rightarrow> Inr (ns', new_extras, stop)))"

function consume ::
  "(string \<times> pat) list \<Rightarrow> namespace \<Rightarrow> string list \<Rightarrow> exc + (namespace \<times> string list)"
where
  \<comment> \<open>the main loop of \<^verbatim>\<open>_parse_known_args\<close> and the lines after it; the first argument is
      \<^verbatim>\<open>arg_strings[start_index:]\<close> with the letters. With no positional action,
      \<^verbatim>\<open>consume_positionals\<close> consumes nothing, so every string that is not an option
      goes to \<^verbatim>\<open>extras\<close>.\<close>
  "consume [] ns extras = Inr (ns, extras)"
| "consume ((arg_string, Pat_O t) # following) ns extras =
     (case consume_optional arg_string t following ns of
        Inl e \<Rightarrow> Inl e
      | Inr (ns', new_extras, stop) \<Rightarrow>
          consume (drop stop following) ns' (extras @ new_extras))"
| "consume ((arg_string, Pat_A) # following) ns extras = consume following ns (extras @ [arg_string])"
| "consume ((arg_string, Pat_Dash) # following) ns extras =
     consume following ns (extras @ [arg_string])"
  by pat_completeness auto
termination
  by (relation "measure (\<lambda>(parts, ns, extras). length parts)") auto

definition parse_known_args :: "string list \<Rightarrow> exc + (namespace \<times> string list)" where
  \<comment> \<open>the namespace starts with the default \<^verbatim>\<open>name=None\<close>; no action is required\<close>
  "parse_known_args args =
     (case arg_string_pattern_parts args of
        Inl e \<Rightarrow> Inl e
      | Inr parts \<Rightarrow> consume parts \<lparr>name = None\<rparr> [])"

section \<open>The script\<close>

text \<open>
  What a stream receives is a list of writes. A \<^verbatim>\<open>print\<close> is the text with its newline;
  the messages that argparse formats (the help, the usage line, the error line, which
  depend on the program name and the terminal width) and the traceback of an uncaught
  exception stay symbolic. Whether a stream takes a write is a parameter of the run
  (\<open>streams\<close>); both streams are taken to be open.
\<close>

datatype chunk =
    Text string
  | HelpMessage
  | UsageMessage
  | ErrorMessage argument_error
  | Traceback exc

record world =
  environ :: "string \<rightharpoonup> string"
  stdout :: "chunk list"
  stderr :: "chunk list"

definition print_stdout :: "string \<Rightarrow> world \<Rightarrow> world" where
  \<comment> \<open>\<^verbatim>\<open>print(s)\<close>\<close>
  "print_stdout s w = w\<lparr>stdout := stdout w @ [Text (s @ [CHR 0x0A])]\<rparr>"

definition print_stderr :: "string \<Rightarrow> world \<Rightarrow> world" where
  \<comment> \<open>\<^verbatim>\<open>print(s, file=sys.stderr)\<close>\<close>
  "print_stderr s w = w\<lparr>stderr := stderr w @ [Text (s @ [CHR 0x0A])]\<rparr>"

definition environ_get :: "world \<Rightarrow> string \<Rightarrow> string \<Rightarrow> string" where
  \<comment> \<open>\<^verbatim>\<open>os.environ.get(key, default)\<close>\<close>
  "environ_get w key dflt = (case environ w key of None \<Rightarrow> dflt | Some v \<Rightarrow> v)"

definition compute_greeting :: "string \<Rightarrow> exc + string" where
  \<comment> \<open>lines 8 to 23 of \<^verbatim>\<open>main\<close>: the value of \<^verbatim>\<open>greeting\<close> when the prints are reached\<close>
  "compute_greeting global_args_str =
     (let greeting = ''Hello from the env_setup.py script!'' in
      if global_args_str \<noteq> [] then
        (case parse_known_args (str_split global_args_str) of
           Inl e \<Rightarrow> Inl e
         | Inr (args, unknown) \<Rightarrow>
            (case name args of
               None \<Rightarrow> Inr greeting
             | Some n \<Rightarrow> if n \<noteq> [] then Inr (''Hello, '' @ n @ ''!'') else Inr greeting))
      else Inr greeting)"

record streams =
  stdout_accepts :: "chunk \<Rightarrow> bool"
  stderr_accepts :: "chunk \<Rightarrow> bool"
  \<comment> \<open>whether a write of the chunk to the stream returns. A write that the stream refuses
      raises: \<^verbatim>\<open>UnicodeEncodeError\<close> when the codec of the stream has no code for a
      character of the text and its error handler is \<^verbatim>\<open>strict\<close>.\<close>

definition accepting :: streams where
  \<comment> \<open>streams that take every write, as a UTF-8 standard output takes every text of the
      model\<close>
  "accepting = \<lparr>stdout_accepts = (\<lambda>c. True), stderr_accepts = (\<lambda>c. True)\<rparr>"

definition main_on :: "streams \<Rightarrow> world \<Rightarrow> nat \<times> world" where
  \<comment> \<open>the run of the script on the given streams: the exit status and the world it
      leaves. Nothing catches what \<^verbatim>\<open>parse_known_args\<close> or a \<^verbatim>\<open>print\<close> raises: the help
      action ends the process with status 0, a parser error with status 2, any other
      exception with a traceback and status 1. The messages of a parser error go to
      standard error, whose error handler (\<^verbatim>\<open>backslashreplace\<close>) escapes what the codec
      cannot encode.\<close>
  "main_on st w =
     (let global_args_str = environ_get w ''UBER_GLOBAL_COMMAND_ARGS'' [] in
      case compute_greeting global_args_str of
        Inr greeting \<Rightarrow>
          if stdout_accepts st (Text (''DEMO_GREETING=\"'' @ greeting @ ''\"'' @ [CHR 0x0A])) then
            (let w' = print_stdout (''DEMO_GREETING=\"'' @ greeting @ ''\"'') w in
             if stderr_accepts st (Text (''env_setup.py: Setting DEMO_GREETING'' @ [CHR 0x0A])) then
               (0, print_stderr ''env_setup.py: Setting DEMO_GREETING'' w')
             else (1, w'\<lparr>stderr := stderr w' @ [Traceback UnicodeEncodeError]\<rparr>))
          else (1, w\<lparr>stderr := stderr w @ [Traceback UnicodeEncodeError]\<rparr>)
      | Inl HelpExit \<Rightarrow>
          if stdout_accepts st HelpMessage then (0, w\<lparr>stdout := stdout w @ [HelpMessage]\<rparr>)
          else (1, w\<lparr>stderr := stderr w @ [Traceback UnicodeEncodeError]\<rparr>)
      | Inl (ParserError e) \<Rightarrow> (2, w\<lparr>stderr := stderr w @ [UsageMessage, ErrorMessage e]\<rparr>)
      | Inl e \<Rightarrow> (1, w\<lparr>stderr := stderr w @ [Traceback e]\<rparr>))"

definition main :: "world \<Rightarrow> nat \<times> world" where
  \<comment> \<open>the run of the script on streams that take every write\<close>
  "main w = main_on accepting w"

definition start :: "string option \<Rightarrow> world" where
  \<comment> \<open>a fresh process: only \<^verbatim>\<open>UBER_GLOBAL_COMMAND_ARGS\<close> set (or not), nothing written yet\<close>
  "start v = \<lparr>environ = (\<lambda>k. if k = ''UBER_GLOBAL_COMMAND_ARGS'' then v else None),
              stdout = [], stderr = []\<rparr>"

section \<open>Predicates for the proofs\<close>

definition help_tuples :: "action_tuple list \<Rightarrow> bool" where
  \<comment> \<open>action tuples of the help action only, at least one\<close>
  "help_tuples ts = (ts \<noteq> [] \<and> list_all (\<lambda>(a, args, os). a = HelpAction) ts)"

fun wf_part :: "string \<times> pat \<Rightarrow> bool" where
  \<comment> \<open>an option tuple with an action names an option string of that action, and its
      explicit argument is made of characters of the argument string\<close>
  "wf_part (s, Pat_O (Some a, os, sep, ea)) =
     (map_of option_string_actions os = Some a \<and>
      (case ea of None \<Rightarrow> True | Some e \<Rightarrow> set e \<subseteq> set s))"
| "wf_part _ = True"

primrec benign :: "exc \<Rightarrow> bool" where
  \<comment> \<open>the two ways argparse itself ends the process\<close>
  "benign (ParserError x) = True"
| "benign HelpExit = True"
| "benign IndexError = False"
| "benign UnicodeEncodeError = False"
| "benign NotOneValue = False"

definition name_ok :: "string list \<Rightarrow> namespace \<Rightarrow> bool" where
  \<comment> \<open>the stored name is made of characters of one of the argument strings\<close>
  "name_ok args ns = (case name ns of None \<Rightarrow> True | Some n \<Rightarrow> \<exists>t\<in>set args. set n \<subseteq> set t)"

definition unrecognised :: "string \<Rightarrow> bool" where
  \<comment> \<open>a token that \<^verbatim>\<open>_parse_optional\<close> takes for a plain argument, or for an option that
      this parser does not know\<close>
  "unrecognised t =
     (parse_optional t = Inr None \<or> parse_optional t = Inr (Some (None, t, None, None)))"

definition skipped :: "string \<Rightarrow> string \<times> pat" where
  \<comment> \<open>such a token with its letter\<close>
  "skipped t = (t, if parse_optional t = Inr None then Pat_A else Pat_O (None, t, None, None))"

definition ascii_stdout :: streams where
  \<comment> \<open>a standard output with the ASCII codec and the strict handler
      (\<^verbatim>\<open>PYTHONIOENCODING=ascii\<close>); standard error escapes what it cannot encode\<close>
  "ascii_stdout =
     \<lparr>stdout_accepts =
        (\<lambda>c. case c of Text s \<Rightarrow> list_all (\<lambda>x. (of_char x :: nat) < 128) s | _ \<Rightarrow> True),
      stderr_accepts = (\<lambda>c. True)\<rparr>"

section \<open>The option loop\<close>

declare optional_loop.simps [simp del]

lemma optional_loop_unknown:
  "optional_loop arg_string following None option_string sep explicit_arg ts = Inr ([], [arg_string], 0)"
  by (simp add: optional_loop.simps)

lemma optional_loop_name_explicit:
  "optional_loop arg_string following (Some NameAction) option_string sep (Some ea) ts =
     Inr (ts @ [(NameAction, [ea], option_string)], [], 0)"
  by (simp add: optional_loop.simps)

lemma optional_loop_name_following:
  "optional_loop arg_string ((v, Pat_A) # following) (Some NameAction) option_string sep None ts =
     Inr (ts @ [(NameAction, [v], option_string)], [], 1)"
  by (simp add: optional_loop.simps)

lemma match_argument_name:
  "match_argument NameAction ps = Inr n \<Longrightarrow> n = 1 \<and> (\<exists>qs. ps = Pat_A # qs)"
  by (cases "(NameAction, ps)" rule: match_argument.cases) auto

lemma match_argument_name_error:
  "match_argument NameAction ps = Inl e \<Longrightarrow> e = ParserError (ExpectedOneArgument NameAction)"
  by (cases "(NameAction, ps)" rule: match_argument.cases) auto

lemma optional_loop_name_missing:
  "\<nexists>v. following \<noteq> [] \<and> hd following = (v, Pat_A) \<Longrightarrow>
   optional_loop arg_string following (Some NameAction) option_string sep None ts =
     Inl (ParserError (ExpectedOneArgument NameAction))"
  apply (cases following)
   apply (simp add: optional_loop.simps)
  subgoal for p ps
    apply (cases p)
    subgoal for s c
      by (cases c) (simp_all add: optional_loop.simps)
    done
  done

lemma optional_loop_help_plain:
  "optional_loop arg_string following (Some HelpAction) option_string sep None ts =
     Inr (ts @ [(HelpAction, [], option_string)], [], 0)"
  by (simp add: optional_loop.simps)

lemma map_of_two_chars:
  "map_of option_string_actions [c, d] = Some a \<Longrightarrow> a = HelpAction"
  by (simp add: option_string_actions_def split: if_splits)

lemma optional_loop_help_explicit:
  "2 \<le> length option_string \<Longrightarrow>
   (\<exists>x. optional_loop arg_string following (Some HelpAction) option_string sep (Some ea) ts
          = Inl (ParserError (IgnoredExplicitArgument HelpAction x))) \<or>
   (\<exists>ts' ex. optional_loop arg_string following (Some HelpAction) option_string sep (Some ea) ts
          = Inr (ts @ ts', ex, 0) \<and> help_tuples ts')"
proof (induction ea arbitrary: option_string sep ts rule: length_induct)
  case (1 ea)
  let ?ts = "ts @ [(HelpAction, [], option_string)]"
  let ?os = "[hd option_string, hd ea]"
  have len: "\<not> length option_string < 2" using "1.prems" by simp
  show ?case
  proof (cases "option_string ! 1 \<notin> set prefix_chars \<and> ea \<noteq> []")
    case False
    then show ?thesis
      using len by (subst optional_loop.simps) auto
  next
    case cluster: True
    show ?thesis
    proof (cases "truthy sep \<or> hd ea \<in> set prefix_chars")
      case True
      then show ?thesis
        using len cluster by (subst optional_loop.simps) auto
    next
      case go: False
      show ?thesis
      proof (cases "map_of option_string_actions ?os")
        case None
        then have "optional_loop arg_string following (Some HelpAction) option_string sep (Some ea) ts
            = Inr (?ts, [hd option_string # ea], 0)"
          using len cluster go by (subst optional_loop.simps) (simp add: Let_def)
        then show ?thesis by (auto simp: help_tuples_def)
      next
        case (Some a')
        then have a': "a' = HelpAction" by (rule map_of_two_chars)
        have step: "optional_loop arg_string following (Some HelpAction) option_string sep (Some ea) ts
            = (if tl ea = [] then
                 optional_loop arg_string following (Some HelpAction) ?os None None ?ts
               else if hd (tl ea) = CHR ''='' then
                 optional_loop arg_string following (Some HelpAction) ?os (Some ''='')
                   (Some (tl (tl ea))) ?ts
               else
                 optional_loop arg_string following (Some HelpAction) ?os (Some [])
                   (Some (tl ea)) ?ts)"
          using len cluster go Some a' by (subst optional_loop.simps) (simp add: Let_def)
        have shorter: "length (tl ea) < length ea" "length (tl (tl ea)) < length ea"
          using cluster by (cases ea; simp)+
        have two: "2 \<le> length ?os" by simp
        consider (last) "tl ea = []" | (eq) "tl ea \<noteq> []" "hd (tl ea) = CHR ''=''"
          | (more) "tl ea \<noteq> []" "hd (tl ea) \<noteq> CHR ''=''" by blast
        then show ?thesis
        proof cases
          case last
          then show ?thesis
            by (simp add: step optional_loop_help_plain help_tuples_def)
        next
          case eq
          from "1.IH" shorter(2) two
          have "(\<exists>x. optional_loop arg_string following (Some HelpAction) ?os (Some ''='')
                   (Some (tl (tl ea))) ?ts = Inl (ParserError (IgnoredExplicitArgument HelpAction x))) \<or>
                (\<exists>ts' ex. optional_loop arg_string following (Some HelpAction) ?os (Some ''='')
                   (Some (tl (tl ea))) ?ts = Inr (?ts @ ts', ex, 0) \<and> help_tuples ts')"
            by blast
          then show ?thesis
            using eq by (auto simp: step help_tuples_def)
        next
          case more
          from "1.IH" shorter(1) two
          have "(\<exists>x. optional_loop arg_string following (Some HelpAction) ?os (Some [])
                   (Some (tl ea)) ?ts = Inl (ParserError (IgnoredExplicitArgument HelpAction x))) \<or>
                (\<exists>ts' ex. optional_loop arg_string following (Some HelpAction) ?os (Some [])
                   (Some (tl ea)) ?ts = Inr (?ts @ ts', ex, 0) \<and> help_tuples ts')"
            by blast
          then show ?thesis
            using more by (auto simp: step help_tuples_def)
        qed
      qed
    qed
  qed
qed

lemma set_partition_after:
  "str_partition c s = (b, sep, after) \<Longrightarrow> set after \<subseteq> set s"
proof -
  assume a: "str_partition c s = (b, sep, after)"
  have "set (dropWhile (\<lambda>x. x \<noteq> c) s) \<subseteq> set s"
    by (auto dest: set_dropWhileD)
  with a show ?thesis
    by (auto simp: str_partition_def split: list.splits)
qed

lemma option_string_actions_lookup:
  "(os, a) \<in> set option_string_actions \<Longrightarrow> map_of option_string_actions os = Some a"
  by (rule map_of_is_SomeI) (simp_all add: option_string_actions_def)

lemma get_option_tuples_wf:
  assumes "get_option_tuples s = Inr ts" and "(a, os, sep, ea) \<in> set ts"
  shows "\<exists>act. a = Some act \<and> map_of option_string_actions os = Some act \<and>
           (case ea of None \<Rightarrow> True | Some e \<Rightarrow> set e \<subseteq> set s)"
proof -
  have "\<exists>c0 c1 cs. s = c0 # c1 # cs"
    using assms(1) by (cases s rule: get_option_tuples.cases) (auto split: if_splits)
  then obtain c0 c1 cs where 1: "s = c0 # c1 # cs" by blast
  obtain b sp after where part: "str_partition CHR ''='' s = (b, sp, after)"
    by (cases "str_partition CHR ''='' s") auto
  have after: "set after \<subseteq> set s" using part by (rule set_partition_after)
  have drop: "set (drop 2 s) \<subseteq> set s" by (rule set_drop_subset)
  show ?thesis
  proof (cases "c0 \<in> set prefix_chars \<and> c1 \<in> set prefix_chars")
    case True
    with assms(1) part have
      "ts = map (\<lambda>(os, a). (Some a, os, (if sp = [] then None else Some sp),
                              (if sp = [] then None else Some after)))
              (filter (\<lambda>(os, a). startswith os b) option_string_actions)"
      unfolding 1 by (simp add: allow_abbrev_def Let_def)
    with assms(2) obtain act where
      "(os, act) \<in> set option_string_actions" "a = Some act"
      "ea = (if sp = [] then None else Some after)"
      by auto
    then show ?thesis
      using after by (auto simp: option_string_actions_lookup)
  next
    case False
    with assms(1) have
      "ts = concat (map (\<lambda>(os, a).
                   if os = [c0, c1] then [(Some a, os, Some [], Some cs)]
                   else if startswith os (c0 # c1 # cs) then [(Some a, os, None, None)]
                   else []) option_string_actions)"
      unfolding 1 by (auto simp: Let_def split: if_splits)
    with assms(2) obtain act where
      "(os, act) \<in> set option_string_actions" "a = Some act"
      "ea = Some cs \<or> ea = None"
      by (auto split: if_splits)
    then show ?thesis
      unfolding 1 by (auto simp: option_string_actions_lookup)
  qed
qed

lemma get_option_tuples_error:
  "2 \<le> length s \<Longrightarrow> get_option_tuples s = Inl e \<Longrightarrow> benign e"
  by (cases s rule: get_option_tuples.cases)
     (auto simp: Let_def allow_abbrev_def split: if_splits prod.splits)

lemma parse_optional_unfold:
  assumes "s \<noteq> []" "hd s \<in> set prefix_chars" "map_of option_string_actions s = None"
    "length s \<noteq> 1" "str_partition CHR ''='' s = (b, sp, after)"
    "sp = [] \<or> map_of option_string_actions b = None"
  shows "parse_optional s =
     (case get_option_tuples s of
        Inl e \<Rightarrow> Inl e
      | Inr option_tuples \<Rightarrow>
          if length option_tuples > 1 then
            Inl (ParserError
                  (AmbiguousOption s (map (\<lambda>(a, os, s, e). os) option_tuples)))
          else if length option_tuples = 1 then Inr (Some (hd option_tuples))
          else if negative_number_matcher s
                  \<and> \<not> has_negative_number_optionals then Inr None
          else if CHR '' '' \<in> set s then Inr None
          else Inr (Some (None, s, None, None)))"
  using assms by (auto simp: parse_optional_def)

lemma parse_optional_cases:
  obtains (positional) "parse_optional s = Inr None"
  | (exact) a where "map_of option_string_actions s = Some a"
      "parse_optional s = Inr (Some (Some a, s, None, None))"
  | (explicit) a b sp after where "str_partition CHR ''='' s = (b, sp, after)"
      "map_of option_string_actions b = Some a"
      "parse_optional s = Inr (Some (Some a, b, Some sp, Some after))"
  | (search) "2 \<le> length s" "parse_optional s =
     (case get_option_tuples s of
        Inl e \<Rightarrow> Inl e
      | Inr option_tuples \<Rightarrow>
          if length option_tuples > 1 then
            Inl (ParserError
                  (AmbiguousOption s (map (\<lambda>(a, os, s, e). os) option_tuples)))
          else if length option_tuples = 1 then Inr (Some (hd option_tuples))
          else if negative_number_matcher s
                  \<and> \<not> has_negative_number_optionals then Inr None
          else if CHR '' '' \<in> set s then Inr None
          else Inr (Some (None, s, None, None)))"
proof -
  obtain b sp after where part: "str_partition CHR ''='' s = (b, sp, after)"
    by (cases "str_partition CHR ''='' s") auto
  show thesis
  proof (cases "s = [] \<or> hd s \<notin> set prefix_chars")
    case True
    then have "parse_optional s = Inr None" by (auto simp: parse_optional_def)
    then show thesis by (rule positional)
  next
    case start: False
    show thesis
    proof (cases "map_of option_string_actions s")
      case (Some a)
      then have "parse_optional s = Inr (Some (Some a, s, None, None))"
        using start by (simp add: parse_optional_def)
      with Some show thesis by (rule exact)
    next
      case table: None
      show thesis
      proof (cases "length s = 1")
        case True
        then have "parse_optional s = Inr None"
          using start table by (simp add: parse_optional_def)
        then show thesis by (rule positional)
      next
        case long: False
        have two: "2 \<le> length s"
        proof -
          have "length s \<noteq> 0" using start by simp
          with long show ?thesis by linarith
        qed
        show thesis
        proof (cases "sp = [] \<or> map_of option_string_actions b = None")
          case True
          from two parse_optional_unfold [OF _ _ table long part True] start
          show thesis by (intro search) auto
        next
          case False
          then obtain a where a: "map_of option_string_actions b = Some a" by auto
          then have "parse_optional s = Inr (Some (Some a, b, Some sp, Some after))"
            using start table long part False by (simp add: parse_optional_def)
          with part a show thesis by (rule explicit)
        qed
      qed
    qed
  qed
qed

lemma parse_optional_error:
  assumes "parse_optional s = Inl e"
  shows "benign e"
proof (cases s rule: parse_optional_cases)
  case search
  with assms show ?thesis
    by (auto dest: get_option_tuples_error split: sum.splits if_splits)
qed (use assms in auto)

lemma parse_optional_wf:
  assumes "parse_optional s = Inr (Some t)"
  shows "wf_part (s, Pat_O t)"
proof (cases s rule: parse_optional_cases)
  case positional
  with assms show ?thesis by simp
next
  case (exact a)
  with assms show ?thesis by auto
next
  case (explicit a b sp after)
  then have "set after \<subseteq> set s" by (auto dest: set_partition_after)
  with explicit assms show ?thesis by auto
next
  case search
  obtain a os sep ea where t: "t = (a, os, sep, ea)" by (cases t) auto
  from search(2) assms
  consider (abbrev) ts where "get_option_tuples s = Inr ts" "length ts = 1" "hd ts = t"
    | (unknown) "t = (None, s, None, None)"
    by (auto split: sum.splits if_splits)
  then show ?thesis
  proof cases
    case abbrev
    then have "ts \<noteq> []" by auto
    then have "(a, os, sep, ea) \<in> set ts" using t abbrev(3) by (metis hd_in_set)
    with abbrev(1) show ?thesis
      unfolding t by (auto dest!: get_option_tuples_wf)
  next
    case unknown
    then show ?thesis by simp
  qed
qed

section \<open>The parser never fails with an uncaught exception\<close>

lemma option_string_long:
  "map_of option_string_actions os = Some a \<Longrightarrow> 2 \<le> length os"
  by (auto simp: option_string_actions_def split: if_splits)

lemma take_actions_help:
  "help_tuples ts \<Longrightarrow> take_actions ts ns = Inl HelpExit"
  by (cases ts) (auto simp: help_tuples_def)

lemma consume_optional_unknown:
  "consume_optional s (None, os, sep, ea) fol ns = Inr (ns, [s], 0)"
  by (simp add: consume_optional_def optional_loop_unknown)

lemma consume_optional_name_explicit:
  "consume_optional s (Some NameAction, os, sep, Some ea) fol ns
     = Inr (ns\<lparr>name := Some ea\<rparr>, [], 0)"
  by (simp add: consume_optional_def optional_loop_name_explicit)

lemma consume_optional_name_following:
  "consume_optional s (Some NameAction, os, sep, None) ((v, Pat_A) # fol) ns
     = Inr (ns\<lparr>name := Some v\<rparr>, [], 1)"
  by (simp add: consume_optional_def optional_loop_name_following)

lemma consume_optional_name_missing:
  "\<nexists>v. fol \<noteq> [] \<and> hd fol = (v, Pat_A) \<Longrightarrow>
   consume_optional s (Some NameAction, os, sep, None) fol ns
     = Inl (ParserError (ExpectedOneArgument NameAction))"
  by (simp add: consume_optional_def optional_loop_name_missing)

lemma consume_optional_help:
  assumes "2 \<le> length os"
  shows "consume_optional s (Some HelpAction, os, sep, ea) fol ns = Inl HelpExit \<or>
         (\<exists>x. consume_optional s (Some HelpAction, os, sep, ea) fol ns
               = Inl (ParserError (IgnoredExplicitArgument HelpAction x)))"
proof (cases ea)
  case None
  then show ?thesis
    by (simp add: consume_optional_def optional_loop_help_plain)
next
  case (Some e)
  from optional_loop_help_explicit [OF assms, of s fol sep e "[]"]
  show ?thesis
    unfolding Some by (auto simp: consume_optional_def take_actions_help)
qed

lemma consume_optional_sound:
  assumes "wf_part (s, Pat_O t)" "name_ok A ns" "s \<in> set A" "fst ` set fol \<subseteq> set A"
  shows "case consume_optional s t fol ns of
           Inl e \<Rightarrow> benign e
         | Inr (ns', ex, k) \<Rightarrow> name_ok A ns'"
proof -
  obtain a os sep ea where t: "t = (a, os, sep, ea)" by (cases t) auto
  show ?thesis
  proof (cases a)
    case None
    then show ?thesis using assms(2) by (simp add: t consume_optional_unknown)
  next
    case (Some act)
    with assms(1) t have tab: "map_of option_string_actions os = Some act"
      and ea: "\<And>e. ea = Some e \<Longrightarrow> set e \<subseteq> set s" by auto
    show ?thesis
    proof (cases act)
      case HelpAction
      from consume_optional_help [OF option_string_long [OF tab], of s sep ea fol ns]
      show ?thesis unfolding t Some HelpAction by auto
    next
      case NameAction
      show ?thesis
      proof (cases ea)
        case (Some e)
        with ea assms(3) show ?thesis
          unfolding t \<open>a = Some act\<close> NameAction
          by (auto simp: consume_optional_name_explicit name_ok_def)
      next
        case None
        show ?thesis
        proof (cases "\<exists>v rest. fol = (v, Pat_A) # rest")
          case True
          then obtain v rest where fol: "fol = (v, Pat_A) # rest" by blast
          with assms(4) have "v \<in> set A" by auto
          then show ?thesis
            unfolding t \<open>a = Some act\<close> NameAction None fol
            by (auto simp: consume_optional_name_following name_ok_def)
        next
          case False
          then have "\<nexists>v. fol \<noteq> [] \<and> hd fol = (v, Pat_A)"
            by (cases fol) auto
          then show ?thesis
            unfolding t \<open>a = Some act\<close> NameAction None
            by (simp add: consume_optional_name_missing)
        qed
      qed
    qed
  qed
qed

lemma consume_sound:
  "list_all wf_part parts \<Longrightarrow> name_ok A ns \<Longrightarrow> fst ` set parts \<subseteq> set A \<Longrightarrow>
   (case consume parts ns extras of Inl e \<Rightarrow> benign e | Inr (ns', ex) \<Rightarrow> name_ok A ns')"
proof (induction parts ns extras rule: consume.induct)
  case (1 ns extras)
  then show ?case by simp
next
  case (2 arg_string t following ns extras)
  have wf: "wf_part (arg_string, Pat_O t)" and s: "arg_string \<in> set A"
    and fol: "fst ` set following \<subseteq> set A"
    using "2.prems" by auto
  note step = consume_optional_sound [OF wf "2.prems"(2) s fol]
  show ?case
  proof (cases "consume_optional arg_string t following ns")
    case (Inl e)
    with step show ?thesis by simp
  next
    case (Inr r)
    obtain ns' new_extras stop where r: "r = (ns', new_extras, stop)" by (cases r) auto
    have ok: "name_ok A ns'" using step Inr r by simp
    have wfs: "list_all wf_part (drop stop following)"
      using "2.prems"(1) by (auto simp: list_all_iff dest: in_set_dropD)
    have sub: "fst ` set (drop stop following) \<subseteq> set A"
      using fol by (auto dest: in_set_dropD)
    from "2.IH" [OF Inr r [symmetric] refl wfs ok sub]
    show ?thesis using Inr r by simp
  qed
next
  case (3 arg_string following ns extras)
  then show ?case by simp
next
  case (4 arg_string following ns extras)
  then show ?case by simp
qed

lemma pattern_parts_sound:
  "case arg_string_pattern_parts args of
     Inl e \<Rightarrow> benign e
   | Inr parts \<Rightarrow> map fst parts = args \<and> list_all wf_part parts"
proof (induction args)
  case Nil
  then show ?case by simp
next
  case (Cons arg_string rest)
  show ?case
  proof (cases "arg_string = ''--''")
    case True
    have "list_all wf_part (map (\<lambda>s. (s, Pat_A)) rest)"
      by (simp add: list_all_iff)
    with True show ?thesis by (simp add: comp_def)
  next
    case False
    show ?thesis
    proof (cases "parse_optional arg_string")
      case (Inl e)
      then show ?thesis using False by (simp add: parse_optional_error)
    next
      case (Inr option_tuple)
      have "wf_part (arg_string, case option_tuple of None \<Rightarrow> Pat_A | Some t \<Rightarrow> Pat_O t)"
        using Inr by (cases option_tuple) (auto dest: parse_optional_wf)
      with Cons.IH Inr False show ?thesis
        by (auto split: sum.splits)
    qed
  qed
qed

lemma parse_known_args_sound:
  "case parse_known_args args of
     Inl e \<Rightarrow> benign e
   | Inr (ns, extras) \<Rightarrow> name_ok args ns"
proof (cases "arg_string_pattern_parts args")
  case (Inl e)
  with pattern_parts_sound [of args] show ?thesis
    by (simp add: parse_known_args_def)
next
  case (Inr parts)
  with pattern_parts_sound [of args]
  have "map fst parts = args" "list_all wf_part parts" by auto
  then have "fst ` set parts \<subseteq> set args" by (metis set_map subset_refl)
  from consume_sound [OF \<open>list_all wf_part parts\<close> _ this, of "\<lparr>name = None\<rparr>" "[]"]
  show ?thesis
    using Inr by (simp add: parse_known_args_def name_ok_def)
qed

section \<open>Splitting at whitespace and the greeting\<close>

lemma split_from_tokens:
  "\<forall>c\<in>set tok. \<not> isspace c \<Longrightarrow> t \<in> set (split_from tok s) \<Longrightarrow>
     t \<noteq> [] \<and> (\<forall>c\<in>set t. \<not> isspace c)"
proof (induction s arbitrary: tok)
  case Nil
  then show ?case by (simp split: if_splits)
next
  case (Cons c cs)
  show ?case
  proof (cases "isspace c")
    case True
    with Cons.prems have "t = tok \<and> tok \<noteq> [] \<or> t \<in> set (split_from [] cs)"
      by (simp split: if_splits)
    then show ?thesis
    proof
      assume "t = tok \<and> tok \<noteq> []"
      with Cons.prems(1) show ?thesis by simp
    next
      assume "t \<in> set (split_from [] cs)"
      with Cons.IH [of "[]"] show ?thesis by simp
    qed
  next
    case False
    with Cons.prems have "t \<in> set (split_from (tok @ [c]) cs)" by simp
    moreover have "\<forall>x\<in>set (tok @ [c]). \<not> isspace x"
      using Cons.prems(1) False by simp
    ultimately show ?thesis using Cons.IH by blast
  qed
qed

lemma str_split_tokens:
  "t \<in> set (str_split s) \<Longrightarrow> t \<noteq> [] \<and> (\<forall>c\<in>set t. \<not> isspace c)"
  unfolding str_split_def using split_from_tokens [of "[]" t s] by simp

lemma split_from_word:
  "\<forall>c\<in>set v. \<not> isspace c \<Longrightarrow> split_from tok (v @ s) = split_from (tok @ v) s"
proof (induction v arbitrary: tok)
  case Nil
  then show ?case by simp
next
  case (Cons c cs)
  then have "split_from tok ((c # cs) @ s) = split_from (tok @ [c]) (cs @ s)" by simp
  also have "\<dots> = split_from ((tok @ [c]) @ cs) s" using Cons by simp
  finally show ?case by simp
qed

lemma split_from_space:
  "isspace c \<Longrightarrow> tok \<noteq> [] \<Longrightarrow> split_from tok (c # s) = tok # split_from [] s"
  by simp

lemma str_split_word:
  "\<forall>c\<in>set v. \<not> isspace c \<Longrightarrow> v \<noteq> [] \<Longrightarrow> str_split v = [v]"
  using split_from_word [of v "[]" "[]"] by (simp add: str_split_def)

lemma str_split_two_words:
  assumes "\<forall>c\<in>set u. \<not> isspace c" "u \<noteq> []" "\<forall>c\<in>set v. \<not> isspace c" "v \<noteq> []"
  shows "str_split (u @ '' '' @ v) = [u, v]"
proof -
  have "str_split (u @ '' '' @ v) = split_from u ('' '' @ v)"
    using split_from_word [OF assms(1), of "[]" "'' '' @ v"] by (simp add: str_split_def)
  also have "\<dots> = u # split_from [] v"
    using assms(2) by (simp add: isspace_def)
  also have "split_from [] v = [v]"
    using split_from_word [OF assms(3), of "[]" "[]"] assms(4) by simp
  finally show ?thesis .
qed

lemma isspace_newline: "isspace CHR 0x0A"
  by (simp add: isspace_def)

lemma compute_greeting_empty:
  "compute_greeting [] = Inr ''Hello from the env_setup.py script!''"
  by (simp add: compute_greeting_def)

lemma compute_greeting_error:
  "s \<noteq> [] \<Longrightarrow> parse_known_args (str_split s) = Inl e \<Longrightarrow> compute_greeting s = Inl e"
  by (simp add: compute_greeting_def)

lemma compute_greeting_parsed:
  "s \<noteq> [] \<Longrightarrow> parse_known_args (str_split s) = Inr (ns, extras) \<Longrightarrow>
   compute_greeting s =
     Inr (case name ns of
            None \<Rightarrow> ''Hello from the env_setup.py script!''
          | Some n \<Rightarrow> if n \<noteq> [] then ''Hello, '' @ n @ ''!''
                      else ''Hello from the env_setup.py script!'')"
  by (simp add: compute_greeting_def split: option.splits)

lemma compute_greeting_sound:
  "case compute_greeting s of
     Inl e \<Rightarrow> benign e
   | Inr g \<Rightarrow> g \<noteq> [] \<and> CHR 0x0A \<notin> set g"
proof (cases "s = []")
  case True
  then show ?thesis by (simp add: compute_greeting_empty)
next
  case False
  show ?thesis
  proof (cases "parse_known_args (str_split s)")
    case (Inl e)
    with parse_known_args_sound [of "str_split s"] have "benign e" by simp
    then show ?thesis by (simp add: compute_greeting_error [OF False Inl])
  next
    case (Inr r)
    obtain ns extras where r: "r = (ns, extras)" by (cases r) auto
    with parse_known_args_sound [of "str_split s"] Inr
    have ok: "name_ok (str_split s) ns" by simp
    note eq = compute_greeting_parsed [OF False Inr [unfolded r]]
    show ?thesis
    proof (cases "name ns")
      case None
      then show ?thesis by (simp add: eq)
    next
      case (Some n)
      with ok obtain t where "t \<in> set (str_split s)" "set n \<subseteq> set t"
        by (auto simp: name_ok_def)
      then have "\<forall>c\<in>set n. \<not> isspace c" by (auto dest: str_split_tokens)
      then have "CHR 0x0A \<notin> set n" using isspace_newline by blast
      with Some show ?thesis by (simp add: eq)
    qed
  qed
qed

section \<open>Tokens the parser passes over\<close>

lemma parse_optional_dashes:
  "parse_optional ''--'' = Inl (ParserError (AmbiguousOption ''--'' [''--help'', ''--name'']))"
  by code_simp

lemma not_dashes: "parse_optional t = Inr r \<Longrightarrow> t \<noteq> ''--''"
  using parse_optional_dashes by auto

lemma pattern_parts_step:
  "parse_optional t = Inr r \<Longrightarrow>
   arg_string_pattern_parts (t # rest) =
     (case arg_string_pattern_parts rest of
        Inl e \<Rightarrow> Inl e
      | Inr parts \<Rightarrow> Inr ((t, case r of None \<Rightarrow> Pat_A | Some tup \<Rightarrow> Pat_O tup) # parts))"
  using not_dashes [of t r] by simp

lemma pattern_parts_unrecognised:
  "list_all unrecognised xs \<Longrightarrow>
   arg_string_pattern_parts (xs @ rest) =
     (case arg_string_pattern_parts rest of
        Inl e \<Rightarrow> Inl e
      | Inr parts \<Rightarrow> Inr (map skipped xs @ parts))"
proof (induction xs)
  case Nil
  show ?case by (simp split: sum.splits)
next
  case (Cons t xs)
  then have t: "unrecognised t" and xs: "list_all unrecognised xs" by simp_all
  from t consider "parse_optional t = Inr None"
    | "parse_optional t = Inr (Some (None, t, None, None))"
    unfolding unrecognised_def by blast
  then show ?case
  proof cases
    case 1
    then show ?thesis
      using Cons.IH [OF xs]
      by (simp add: pattern_parts_step skipped_def del: arg_string_pattern_parts.simps
               split: sum.splits)
  next
    case 2
    then show ?thesis
      using Cons.IH [OF xs]
      by (simp add: pattern_parts_step skipped_def del: arg_string_pattern_parts.simps
               split: sum.splits)
  qed
qed

lemma consume_skipped:
  "consume (map skipped xs @ parts) ns extras = consume parts ns (extras @ xs)"
proof (induction xs arbitrary: extras)
  case Nil
  show ?case by simp
next
  case (Cons t xs)
  show ?case
    using Cons.IH [of "extras @ [t]"]
    by (simp add: skipped_def consume_optional_unknown)
qed

lemma parse_name_following:
  assumes "list_all unrecognised xs" "list_all unrecognised ys"
    "parse_optional f = Inr (Some (Some NameAction, os, sep, None))"
    "parse_optional v = Inr None"
  shows "parse_known_args (xs @ [f, v] @ ys) = Inr (\<lparr>name = Some v\<rparr>, xs @ ys)"
proof -
  have ys: "arg_string_pattern_parts ys = Inr (map skipped ys)"
    using pattern_parts_unrecognised [OF assms(2), of "[]"] by simp
  have "arg_string_pattern_parts (f # v # ys)
          = Inr ((f, Pat_O (Some NameAction, os, sep, None)) # (v, Pat_A) # map skipped ys)"
    by (simp only: pattern_parts_step [OF assms(3)] pattern_parts_step [OF assms(4)] ys) simp
  then have "arg_string_pattern_parts (xs @ [f, v] @ ys)
          = Inr (map skipped xs
                 @ (f, Pat_O (Some NameAction, os, sep, None)) # (v, Pat_A) # map skipped ys)"
    using pattern_parts_unrecognised [OF assms(1), of "f # v # ys"] by simp
  moreover have "consume ((f, Pat_O (Some NameAction, os, sep, None)) # (v, Pat_A) # map skipped ys)
                   \<lparr>name = None\<rparr> xs = Inr (\<lparr>name = Some v\<rparr>, xs @ ys)"
    using consume_skipped [of ys "[]" "\<lparr>name = Some v\<rparr>" xs]
    by (simp add: consume_optional_name_following)
  ultimately show ?thesis
    using consume_skipped [of xs _ "\<lparr>name = None\<rparr>" "[]"]
    by (simp add: parse_known_args_def)
qed

lemma parse_name_explicit:
  assumes "list_all unrecognised xs" "list_all unrecognised ys"
    "parse_optional f = Inr (Some (Some NameAction, os, sep, Some ea))"
  shows "parse_known_args (xs @ [f] @ ys) = Inr (\<lparr>name = Some ea\<rparr>, xs @ ys)"
proof -
  have ys: "arg_string_pattern_parts ys = Inr (map skipped ys)"
    using pattern_parts_unrecognised [OF assms(2), of "[]"] by simp
  have "arg_string_pattern_parts (f # ys)
          = Inr ((f, Pat_O (Some NameAction, os, sep, Some ea)) # map skipped ys)"
    by (simp only: pattern_parts_step [OF assms(3)] ys) simp
  then have "arg_string_pattern_parts (xs @ [f] @ ys)
          = Inr (map skipped xs
                 @ (f, Pat_O (Some NameAction, os, sep, Some ea)) # map skipped ys)"
    using pattern_parts_unrecognised [OF assms(1), of "f # ys"] by simp
  moreover have "consume ((f, Pat_O (Some NameAction, os, sep, Some ea)) # map skipped ys)
                   \<lparr>name = None\<rparr> xs = Inr (\<lparr>name = Some ea\<rparr>, xs @ ys)"
    using consume_skipped [of ys "[]" "\<lparr>name = Some ea\<rparr>" xs]
    by (simp add: consume_optional_name_explicit)
  ultimately show ?thesis
    using consume_skipped [of xs _ "\<lparr>name = None\<rparr>" "[]"]
    by (simp add: parse_known_args_def)
qed

lemma parse_unrecognised:
  assumes "list_all unrecognised xs"
  shows "parse_known_args xs = Inr (\<lparr>name = None\<rparr>, xs)"
  using pattern_parts_unrecognised [OF assms, of "[]"]
    consume_skipped [of xs "[]" "\<lparr>name = None\<rparr>" "[]"]
  by (simp add: parse_known_args_def)

section \<open>The run of the script\<close>

lemma compute_greeting_parse:
  "compute_greeting s =
     (case parse_known_args (str_split s) of
        Inl e \<Rightarrow> Inl e
      | Inr (ns, unknown) \<Rightarrow>
          Inr (case name ns of
                 None \<Rightarrow> ''Hello from the env_setup.py script!''
               | Some n \<Rightarrow> if n \<noteq> [] then ''Hello, '' @ n @ ''!''
                           else ''Hello from the env_setup.py script!''))"
proof (cases "s = []")
  case True
  have "parse_known_args [] = Inr (\<lparr>name = None\<rparr>, [])"
    by (simp add: parse_known_args_def)
  with True show ?thesis
    by (simp add: compute_greeting_empty str_split_def)
next
  case False
  then show ?thesis
    by (cases "parse_known_args (str_split s)")
       (auto simp: compute_greeting_error compute_greeting_parsed)
qed

lemma main_unfold:
  "main w =
     (let global_args_str = environ_get w ''UBER_GLOBAL_COMMAND_ARGS'' [] in
      case compute_greeting global_args_str of
        Inr greeting \<Rightarrow>
          (0, print_stderr ''env_setup.py: Setting DEMO_GREETING''
                (print_stdout (''DEMO_GREETING=\"'' @ greeting @ ''\"'') w))
      | Inl HelpExit \<Rightarrow> (0, w\<lparr>stdout := stdout w @ [HelpMessage]\<rparr>)
      | Inl (ParserError e) \<Rightarrow> (2, w\<lparr>stderr := stderr w @ [UsageMessage, ErrorMessage e]\<rparr>)
      | Inl e \<Rightarrow> (1, w\<lparr>stderr := stderr w @ [Traceback e]\<rparr>))"
  by (simp add: main_def main_on_def accepting_def Let_def split: sum.splits exc.splits)

lemma main_on_accepted:
  assumes "\<forall>c. stdout_accepts st c"
    and "stderr_accepts st (Text ''env_setup.py: Setting DEMO_GREETING\<newline>'')"
  shows "main_on st w = main w"
  using assms by (simp add: main_unfold main_on_def Let_def split: sum.splits exc.splits)

lemma main_greeting:
  "compute_greeting (environ_get w ''UBER_GLOBAL_COMMAND_ARGS'' []) = Inr g \<Longrightarrow>
   main w = (0, w\<lparr>stdout := stdout w @ [Text (''DEMO_GREETING=\"'' @ g @ ''\"\<newline>'')],
                   stderr := stderr w @ [Text ''env_setup.py: Setting DEMO_GREETING\<newline>'']\<rparr>)"
  by (simp add: main_unfold print_stdout_def print_stderr_def)

lemma main_help:
  "compute_greeting (environ_get w ''UBER_GLOBAL_COMMAND_ARGS'' []) = Inl HelpExit \<Longrightarrow>
   main w = (0, w\<lparr>stdout := stdout w @ [HelpMessage]\<rparr>)"
  by (simp add: main_unfold)

lemma main_error:
  "compute_greeting (environ_get w ''UBER_GLOBAL_COMMAND_ARGS'' []) = Inl (ParserError e) \<Longrightarrow>
   main w = (2, w\<lparr>stderr := stderr w @ [UsageMessage, ErrorMessage e]\<rparr>)"
  by (simp add: main_unfold)

lemma main_cases:
  obtains (greeted) g where
      "compute_greeting (environ_get w ''UBER_GLOBAL_COMMAND_ARGS'' []) = Inr g"
      "g \<noteq> []" "CHR 0x0A \<notin> set g"
  | (helped) "compute_greeting (environ_get w ''UBER_GLOBAL_COMMAND_ARGS'' []) = Inl HelpExit"
  | (rejected) e where
      "compute_greeting (environ_get w ''UBER_GLOBAL_COMMAND_ARGS'' []) = Inl (ParserError e)"
proof (cases "compute_greeting (environ_get w ''UBER_GLOBAL_COMMAND_ARGS'' [])")
  case (Inl e)
  with compute_greeting_sound [of "environ_get w ''UBER_GLOBAL_COMMAND_ARGS'' []"]
  have "benign e" by simp
  with Inl show thesis by (cases e) (auto intro: helped rejected)
next
  case (Inr g)
  with compute_greeting_sound [of "environ_get w ''UBER_GLOBAL_COMMAND_ARGS'' []"]
  show thesis by (auto intro: greeted)
qed

lemma environ_get_Some:
  "environ w k = Some v \<Longrightarrow> environ_get w k d = v"
  by (simp add: environ_get_def)

lemma environ_get_None:
  "environ w k = None \<Longrightarrow> environ_get w k d = d"
  by (simp add: environ_get_def)

lemma environ_start [simp]:
  "environ (start v) ''UBER_GLOBAL_COMMAND_ARGS'' = v"
  by (simp add: start_def)

lemma stdout_start [simp]: "stdout (start v) = []"
  by (simp add: start_def)

lemma stderr_start [simp]: "stderr (start v) = []"
  by (simp add: start_def)

section \<open>The claims\<close>

text \<open>
  C1, as the code has it: for every value of \<^verbatim>\<open>UBER_GLOBAL_COMMAND_ARGS\<close>, when the
  streams take what the script writes (standard output every write, standard error the
  line of line 29), the script ends with exit status 0 or 2: the status is 2 exactly
  when argparse rejects the tokens through \<^verbatim>\<open>parser.error\<close>, and 0 otherwise.
\<close>

theorem exit_status_when_writes_succeed:
  assumes "\<forall>c. stdout_accepts st c"
    and "stderr_accepts st (Text ''env_setup.py: Setting DEMO_GREETING\<newline>'')"
  shows "(fst (main_on st w) = 0 \<or> fst (main_on st w) = 2) \<and>
         (fst (main_on st w) = 2) =
           (\<exists>e. parse_known_args (str_split (environ_get w ''UBER_GLOBAL_COMMAND_ARGS'' []))
                  = Inl (ParserError e))"
proof -
  have run: "main_on st w = main w"
    using assms by (rule main_on_accepted)
  show ?thesis
  proof (cases w rule: main_cases)
    case (greeted g)
    then show ?thesis
      unfolding run
      by (auto simp: main_greeting compute_greeting_parse split: sum.splits prod.splits)
  next
    case helped
    then show ?thesis
      unfolding run
      by (auto simp: main_help compute_greeting_parse split: sum.splits prod.splits)
  next
    case (rejected e)
    then show ?thesis
      unfolding run
      by (auto simp: main_error compute_greeting_parse split: sum.splits prod.splits)
  qed
qed

theorem exit_status_when_writes_succeed_witness:
  "(\<forall>c. stdout_accepts accepting c)
   \<and> stderr_accepts accepting (Text ''env_setup.py: Setting DEMO_GREETING\<newline>'')
   \<and> fst (main_on accepting (start (Some ''--name Ada''))) = 0
   \<and> parse_known_args
       (str_split (environ_get (start (Some ''--nam'')) ''UBER_GLOBAL_COMMAND_ARGS'' []))
       = Inl (ParserError (ExpectedOneArgument NameAction))
   \<and> fst (main_on accepting (start (Some ''--nam''))) = 2"
proof -
  have 1: "\<forall>c. stdout_accepts accepting c" by (simp add: accepting_def)
  have 2: "stderr_accepts accepting (Text ''env_setup.py: Setting DEMO_GREETING\<newline>'')"
    by (simp add: accepting_def)
  have 3: "parse_known_args
       (str_split (environ_get (start (Some ''--nam'')) ''UBER_GLOBAL_COMMAND_ARGS'' []))
       = Inl (ParserError (ExpectedOneArgument NameAction))"
    by code_simp
  have 4: "parse_known_args
       (str_split (environ_get (start (Some ''--name Ada'')) ''UBER_GLOBAL_COMMAND_ARGS'' []))
       = Inr (\<lparr>name = Some ''Ada''\<rparr>, [])"
    by code_simp
  from exit_status_when_writes_succeed [OF 1 2, of "start (Some ''--nam'')"] 3
  have 5: "fst (main_on accepting (start (Some ''--nam''))) = 2" by simp
  from exit_status_when_writes_succeed [OF 1 2, of "start (Some ''--name Ada'')"] 4
  have 6: "fst (main_on accepting (start (Some ''--name Ada''))) = 0" by auto
  from 1 2 3 5 6 show ?thesis by simp
qed

text \<open>
  C1 as the specification states it (the exit status is 0 for every value) fails when
  the name flag comes without a value, on streams that take every write.
\<close>

theorem exit_status_counterexample:
  "fst (main_on accepting (start (Some ''--name''))) \<noteq> 0"
  by code_simp

text \<open>
  The hypothesis on the streams is needed: on a standard output that encodes ASCII only,
  a name with a character beyond ASCII makes the \<^verbatim>\<open>print\<close> of line 26 raise, and the run
  ends with a traceback and status 1, nothing written to standard output.
\<close>

lemma print_raises_on_ascii_stdout:
  "fst (main_on ascii_stdout (start (Some [CHR ''-'', CHR ''-'', CHR ''n'', CHR ''a'', CHR ''m'',
          CHR ''e'', CHR '' '', CHR 0xE9]))) = 1
   \<and> stdout (snd (main_on ascii_stdout (start (Some [CHR ''-'', CHR ''-'', CHR ''n'', CHR ''a'',
          CHR ''m'', CHR ''e'', CHR '' '', CHR 0xE9])))) = []
   \<and> stderr (snd (main_on ascii_stdout (start (Some [CHR ''-'', CHR ''-'', CHR ''n'', CHR ''a'',
          CHR ''m'', CHR ''e'', CHR '' '', CHR 0xE9])))) = [Traceback UnicodeEncodeError]"
  by code_simp

lemma compute_greeting_name_alone:
  "compute_greeting ''--name'' = Inl (ParserError (ExpectedOneArgument NameAction))"
  by code_simp

text \<open>
  C2, as the code has it: when \<^verbatim>\<open>UBER_GLOBAL_COMMAND_ARGS\<close> is exactly \<^verbatim>\<open>--name\<close>, argparse
  rejects the tokens (the name flag expects one argument): nothing is written to
  standard output, the usage and error messages go to standard error, and the exit
  status is 2. There is no fallback to the default greeting.
\<close>

theorem name_without_value_rejected:
  assumes "environ w ''UBER_GLOBAL_COMMAND_ARGS'' = Some ''--name''"
  shows "main w =
           (2, w\<lparr>stderr := stderr w @
                     [UsageMessage, ErrorMessage (ExpectedOneArgument NameAction)]\<rparr>)"
proof -
  have "compute_greeting (environ_get w ''UBER_GLOBAL_COMMAND_ARGS'' [])
          = Inl (ParserError (ExpectedOneArgument NameAction))"
    using assms by (simp only: environ_get_Some compute_greeting_name_alone)
  then show ?thesis by (rule main_error)
qed

theorem name_without_value_rejected_witness:
  "environ (start (Some ''--name'')) ''UBER_GLOBAL_COMMAND_ARGS'' = Some ''--name''
   \<and> fst (main (start (Some ''--name''))) = 2
   \<and> stdout (snd (main (start (Some ''--name'')))) = []
   \<and> stderr (snd (main (start (Some ''--name''))))
       = [UsageMessage, ErrorMessage (ExpectedOneArgument NameAction)]"
  using name_without_value_rejected [of "start (Some ''--name'')"]
  by simp

text \<open>
  C2 as the specification states it (the default greeting on standard output) fails:
  the run writes no greeting line.
\<close>

theorem name_without_value_counterexample:
  "stdout (snd (main (start (Some ''--name''))))
     \<noteq> [Text ''DEMO_GREETING=\"Hello from the env_setup.py script!\"\<newline>'']"
  by code_simp







lemma parse_optional_name_flag:
  "parse_optional ''--name'' = Inr (Some (Some NameAction, ''--name'', None, None))"
  by code_simp

lemma str_split_nonempty: "str_split s \<noteq> [] \<Longrightarrow> s \<noteq> []"
  by (auto simp: str_split_def)

lemma greeting_of_name:
  assumes "environ w ''UBER_GLOBAL_COMMAND_ARGS'' = Some s"
    and "parse_known_args (str_split s) = Inr (ns, unknown)"
    and "name ns = Some n" and "n \<noteq> []"
  shows "main w =
    (0, w\<lparr>stdout := stdout w @ [Text (''DEMO_GREETING=\"Hello, '' @ n @ ''!\"\<newline>'')],
           stderr := stderr w @ [Text ''env_setup.py: Setting DEMO_GREETING\<newline>'']\<rparr>)"
proof -
  have "compute_greeting s = Inr (''Hello, '' @ n @ ''!'')"
    using assms(2-4) by (simp add: compute_greeting_parse)
  then have "compute_greeting (environ_get w ''UBER_GLOBAL_COMMAND_ARGS'' [])
               = Inr (''Hello, '' @ n @ ''!'')"
    using assms(1) by (simp add: environ_get_Some)
  from main_greeting [OF this] show ?thesis by simp
qed

text \<open>
  C5, as the code has it: the tokens that argparse takes for plain arguments or for
  options it does not know are passed over, wherever they stand except directly after
  the name flag. If the tokens are such tokens \<open>xs\<close>, then \<^verbatim>\<open>--name\<close>, then a plain
  argument \<open>v\<close>, then such tokens \<open>ys\<close>, standard output receives exactly the line
  \<^verbatim>\<open>DEMO_GREETING="Hello, v!"\<close>, the same as for \<^verbatim>\<open>--name v\<close> alone. The tokens
  \<^verbatim>\<open>--foo bar --name Ada --baz\<close> are an instance. Nothing is said here about the tokens
  that argparse recognises as its own (the help flags, \<^verbatim>\<open>--\<close>) or rejects.
\<close>

theorem unrecognised_tokens_ignored:
  assumes "environ w ''UBER_GLOBAL_COMMAND_ARGS'' = Some s"
    and "str_split s = xs @ [''--name'', v] @ ys"
    and "list_all unrecognised xs" and "list_all unrecognised ys"
    and "parse_optional v = Inr None"
  shows "stdout (snd (main w)) =
           stdout w @ [Text (''DEMO_GREETING=\"Hello, '' @ v @ ''!\"\<newline>'')]"
proof -
  have "v \<in> set (str_split s)" using assms(2) by simp
  then have v: "v \<noteq> []" by (auto dest: str_split_tokens)
  have "parse_known_args (str_split s) = Inr (\<lparr>name = Some v\<rparr>, xs @ ys)"
    unfolding assms(2)
    by (rule parse_name_following [OF assms(3) assms(4) parse_optional_name_flag assms(5)])
  from greeting_of_name [OF assms(1) this _ v] show ?thesis by simp
qed

theorem unrecognised_tokens_ignored_witness:
  "environ (start (Some ''--foo bar --name Ada --baz'')) ''UBER_GLOBAL_COMMAND_ARGS''
     = Some ''--foo bar --name Ada --baz''
   \<and> str_split ''--foo bar --name Ada --baz''
       = [''--foo'', ''bar''] @ [''--name'', ''Ada''] @ [''--baz'']
   \<and> list_all unrecognised [''--foo'', ''bar'']
   \<and> list_all unrecognised [''--baz'']
   \<and> parse_optional ''Ada'' = Inr None
   \<and> stdout (snd (main (start (Some ''--foo bar --name Ada --baz''))))
       = [Text ''DEMO_GREETING=\"Hello, Ada!\"\<newline>'']"
proof -
  have 1: "environ (start (Some ''--foo bar --name Ada --baz'')) ''UBER_GLOBAL_COMMAND_ARGS''
     = Some ''--foo bar --name Ada --baz''" by simp
  have 2: "str_split ''--foo bar --name Ada --baz''
       = [''--foo'', ''bar''] @ [''--name'', ''Ada''] @ [''--baz'']" by code_simp
  have 3: "list_all unrecognised [''--foo'', ''bar'']" by code_simp
  have 4: "list_all unrecognised [''--baz'']" by code_simp
  have 5: "parse_optional ''Ada'' = Inr None" by code_simp
  from unrecognised_tokens_ignored [OF 1 2 3 4 5] 1 2 3 4 5 show ?thesis by simp
qed

text \<open>
  C5 as the specification states it (every token that is not the name flag or its value
  is ignored and leaves the output as it is) fails for an option the parser does not
  know that stands between \<^verbatim>\<open>--name\<close> and \<^verbatim>\<open>Ada\<close>: with it argparse rejects the tokens and
  nothing is written to standard output, without it the greeting of Ada is.
\<close>

theorem unrecognised_tokens_counterexample:
  "stdout (snd (main (start (Some ''--name --foo Ada''))))
     \<noteq> stdout (snd (main (start (Some ''--name Ada''))))"
  by code_simp

text \<open>
  C6: when \<^verbatim>\<open>UBER_GLOBAL_COMMAND_ARGS\<close> is absent or the empty string, the script writes
  exactly the line \<^verbatim>\<open>DEMO_GREETING="Hello from the env_setup.py script!"\<close> to standard
  output.
\<close>

theorem absent_or_empty_default_greeting:
  assumes "environ w ''UBER_GLOBAL_COMMAND_ARGS'' = None
             \<or> environ w ''UBER_GLOBAL_COMMAND_ARGS'' = Some []"
  shows "stdout (snd (main w)) =
           stdout w @ [Text ''DEMO_GREETING=\"Hello from the env_setup.py script!\"\<newline>'']"
proof -
  from assms have "environ_get w ''UBER_GLOBAL_COMMAND_ARGS'' [] = []"
    by (auto simp: environ_get_def)
  then have "compute_greeting (environ_get w ''UBER_GLOBAL_COMMAND_ARGS'' [])
               = Inr ''Hello from the env_setup.py script!''"
    by (simp add: compute_greeting_empty)
  from main_greeting [OF this] show ?thesis by simp
qed

theorem absent_or_empty_default_greeting_witness:
  "environ (start None) ''UBER_GLOBAL_COMMAND_ARGS'' = None
   \<and> stdout (snd (main (start None))) =
        [Text ''DEMO_GREETING=\"Hello from the env_setup.py script!\"\<newline>'']
   \<and> environ (start (Some [])) ''UBER_GLOBAL_COMMAND_ARGS'' = Some []
   \<and> stdout (snd (main (start (Some [])))) =
        [Text ''DEMO_GREETING=\"Hello from the env_setup.py script!\"\<newline>'']"
  using absent_or_empty_default_greeting [of "start None"]
    absent_or_empty_default_greeting [of "start (Some [])"]
  by simp

text \<open>
  C7: when \<^verbatim>\<open>UBER_GLOBAL_COMMAND_ARGS\<close> is \<^verbatim>\<open>--name World\<close>, standard output receives exactly
  the line \<^verbatim>\<open>DEMO_GREETING="Hello, World!"\<close>; in general, when the parser returns a name
  that is not empty, the line is \<^verbatim>\<open>DEMO_GREETING="Hello, <name>!"\<close> with the name as it was
  captured, character for character.
\<close>

theorem captured_name_greeting:
  "(environ w ''UBER_GLOBAL_COMMAND_ARGS'' = Some ''--name World'' \<longrightarrow>
      stdout (snd (main w)) = stdout w @ [Text ''DEMO_GREETING=\"Hello, World!\"\<newline>'']) \<and>
   (\<forall>s ns unknown n.
      environ w ''UBER_GLOBAL_COMMAND_ARGS'' = Some s \<and>
      parse_known_args (str_split s) = Inr (ns, unknown) \<and> name ns = Some n \<and> n \<noteq> [] \<longrightarrow>
      stdout (snd (main w)) =
        stdout w @ [Text (''DEMO_GREETING=\"Hello, '' @ n @ ''!\"\<newline>'')])"
proof (intro conjI impI allI)
  assume env: "environ w ''UBER_GLOBAL_COMMAND_ARGS'' = Some ''--name World''"
  have "parse_known_args (str_split ''--name World'') = Inr (\<lparr>name = Some ''World''\<rparr>, [])"
    by code_simp
  from greeting_of_name [OF env this] show
    "stdout (snd (main w)) = stdout w @ [Text ''DEMO_GREETING=\"Hello, World!\"\<newline>'']"
    by simp
next
  fix s ns unknown n
  assume "environ w ''UBER_GLOBAL_COMMAND_ARGS'' = Some s \<and>
      parse_known_args (str_split s) = Inr (ns, unknown) \<and> name ns = Some n \<and> n \<noteq> []"
  then show "stdout (snd (main w)) =
        stdout w @ [Text (''DEMO_GREETING=\"Hello, '' @ n @ ''!\"\<newline>'')]"
    by (simp add: greeting_of_name)
qed

theorem captured_name_greeting_witness:
  "environ (start (Some ''--name World'')) ''UBER_GLOBAL_COMMAND_ARGS'' = Some ''--name World''
   \<and> stdout (snd (main (start (Some ''--name World''))))
       = [Text ''DEMO_GREETING=\"Hello, World!\"\<newline>'']
   \<and> environ (start (Some ''--name=a\"b'')) ''UBER_GLOBAL_COMMAND_ARGS'' = Some ''--name=a\"b''
   \<and> parse_known_args (str_split ''--name=a\"b'') = Inr (\<lparr>name = Some ''a\"b''\<rparr>, [])
   \<and> stdout (snd (main (start (Some ''--name=a\"b''))))
       = [Text ''DEMO_GREETING=\"Hello, a\"b!\"\<newline>'']"
proof -
  have 1: "parse_known_args (str_split ''--name=a\"b'') = Inr (\<lparr>name = Some ''a\"b''\<rparr>, [])"
    by code_simp
  from captured_name_greeting [of "start (Some ''--name World'')"]
  have 2: "stdout (snd (main (start (Some ''--name World''))))
       = [Text ''DEMO_GREETING=\"Hello, World!\"\<newline>'']" by simp
  from captured_name_greeting [of "start (Some ''--name=a\"b'')"] 1
  have 3: "stdout (snd (main (start (Some ''--name=a\"b''))))
       = [Text ''DEMO_GREETING=\"Hello, a\"b!\"\<newline>'']" by simp
  from 1 2 3 show ?thesis by simp
qed

text \<open>
  C8: the greeting between the quotes of the \<^verbatim>\<open>DEMO_GREETING\<close> line is never empty, for
  any value of \<^verbatim>\<open>UBER_GLOBAL_COMMAND_ARGS\<close>; and whenever the parser returns without a
  name that is not empty (no name, or the empty name), the line carries the default
  greeting.
\<close>

theorem greeting_never_empty:
  assumes "stdout w = []"
  shows "(\<forall>g. Text (''DEMO_GREETING=\"'' @ g @ ''\"\<newline>'') \<in> set (stdout (snd (main w)))
              \<longrightarrow> g \<noteq> []) \<and>
         (\<forall>ns unknown.
            parse_known_args (str_split (environ_get w ''UBER_GLOBAL_COMMAND_ARGS'' []))
              = Inr (ns, unknown) \<and> \<not> truthy (name ns) \<longrightarrow>
            stdout (snd (main w)) =
              [Text ''DEMO_GREETING=\"Hello from the env_setup.py script!\"\<newline>''])"
proof (intro conjI allI impI)
  fix g
  assume g: "Text (''DEMO_GREETING=\"'' @ g @ ''\"\<newline>'') \<in> set (stdout (snd (main w)))"
  show "g \<noteq> []"
  proof (cases w rule: main_cases)
    case (greeted g')
    with g assms have "g = g'" by (simp add: main_greeting)
    with greeted show ?thesis by simp
  next
    case helped
    with g assms show ?thesis by (simp add: main_help)
  next
    case (rejected e)
    with g assms show ?thesis by (simp add: main_error)
  qed
next
  fix ns unknown
  assume a: "parse_known_args (str_split (environ_get w ''UBER_GLOBAL_COMMAND_ARGS'' []))
              = Inr (ns, unknown) \<and> \<not> truthy (name ns)"
  then have "compute_greeting (environ_get w ''UBER_GLOBAL_COMMAND_ARGS'' [])
               = Inr ''Hello from the env_setup.py script!''"
    by (auto simp: compute_greeting_parse truthy_def split: option.splits)
  from main_greeting [OF this] assms
  show "stdout (snd (main w)) =
              [Text ''DEMO_GREETING=\"Hello from the env_setup.py script!\"\<newline>'']"
    by simp
qed

theorem greeting_never_empty_witness:
  "stdout (start (Some ''--name='')) = []
   \<and> parse_known_args (str_split ''--name='') = Inr (\<lparr>name = Some []\<rparr>, [])
   \<and> \<not> truthy (Some [])
   \<and> stdout (snd (main (start (Some ''--name=''))))
       = [Text ''DEMO_GREETING=\"Hello from the env_setup.py script!\"\<newline>'']
   \<and> stdout (start (Some ''--name Ada'')) = []
   \<and> Text (''DEMO_GREETING=\"'' @ ''Hello, Ada!'' @ ''\"\<newline>'')
       \<in> set (stdout (snd (main (start (Some ''--name Ada'')))))
   \<and> ''Hello, Ada!'' \<noteq> []"
proof -
  have 1: "parse_known_args (str_split ''--name='') = Inr (\<lparr>name = Some []\<rparr>, [])"
    by code_simp
  have 2: "\<not> truthy (Some [])" by (simp add: truthy_def)
  have 3: "environ_get (start (Some ''--name='')) ''UBER_GLOBAL_COMMAND_ARGS'' [] = ''--name=''"
    by (simp add: environ_get_def)
  have 4: "Text (''DEMO_GREETING=\"'' @ ''Hello, Ada!'' @ ''\"\<newline>'')
       \<in> set (stdout (snd (main (start (Some ''--name Ada'')))))"
    by code_simp
  from greeting_never_empty [of "start (Some ''--name='')"] 1 2 3
  have 5: "stdout (snd (main (start (Some ''--name=''))))
       = [Text ''DEMO_GREETING=\"Hello from the env_setup.py script!\"\<newline>'']"
    by simp
  from greeting_never_empty [of "start (Some ''--name Ada'')"] 4
  have 6: "''Hello, Ada!'' \<noteq> []" by blast
  from 1 2 4 5 6 show ?thesis by simp
qed

lemma name_prefixes:
  assumes "startswith ''--name'' flag" and "3 \<le> length flag"
  shows "flag = ''--n'' \<or> flag = ''--na'' \<or> flag = ''--nam'' \<or> flag = ''--name''"
proof -
  from assms(1) have t: "take (length flag) ''--name'' = flag"
    by (simp add: startswith_def)
  have "length flag \<le> 6"
    using arg_cong [OF t, of length] by simp
  then have
   "length flag = 3 \<or> length flag = 4 \<or> length flag = 5 \<or> length flag = 6"
    using assms(2) by linarith
  then show ?thesis
  proof (elim disjE)
    assume "length flag = 3"
    with t show ?thesis by (simp add: eval_nat_numeral)
  next
    assume "length flag = 4"
    with t show ?thesis by (simp add: eval_nat_numeral)
  next
    assume "length flag = 5"
    with t show ?thesis by (simp add: eval_nat_numeral)
  next
    assume "length flag = 6"
    with t show ?thesis by (simp add: eval_nat_numeral)
  qed
qed

lemma parse_optional_abbreviation:
  assumes "flag = ''--n'' \<or> flag = ''--na'' \<or> flag = ''--nam'' \<or> flag = ''--name''"
  shows "parse_optional flag = Inr (Some (Some NameAction, ''--name'', None, None))"
proof -
  have "parse_optional ''--n'' = Inr (Some (Some NameAction, ''--name'', None, None))"
    by code_simp
  moreover have "parse_optional ''--na'' = Inr (Some (Some NameAction, ''--name'', None, None))"
    by code_simp
  moreover have "parse_optional ''--nam'' = Inr (Some (Some NameAction, ''--name'', None, None))"
    by code_simp
  moreover have "parse_optional ''--name'' = Inr (Some (Some NameAction, ''--name'', None, None))"
    by code_simp
  ultimately show ?thesis using assms by auto
qed

lemma parse_optional_equals_form:
  assumes "flag = ''--n'' \<or> flag = ''--na'' \<or> flag = ''--nam'' \<or> flag = ''--name''"
  shows "parse_optional (flag @ ''='' @ v)
           = Inr (Some (Some NameAction, ''--name'', Some ''='', Some v))"
proof -
  have "parse_optional (''--n'' @ ''='' @ v)
           = Inr (Some (Some NameAction, ''--name'', Some ''='', Some v))"
    by (simp add: parse_optional_def option_string_actions_def prefix_chars_def
                  str_partition_def allow_abbrev_def startswith_def)
  moreover have "parse_optional (''--na'' @ ''='' @ v)
           = Inr (Some (Some NameAction, ''--name'', Some ''='', Some v))"
    by (simp add: parse_optional_def option_string_actions_def prefix_chars_def
                  str_partition_def allow_abbrev_def startswith_def)
  moreover have "parse_optional (''--nam'' @ ''='' @ v)
           = Inr (Some (Some NameAction, ''--name'', Some ''='', Some v))"
    by (simp add: parse_optional_def option_string_actions_def prefix_chars_def
                  str_partition_def allow_abbrev_def startswith_def)
  moreover have "parse_optional (''--name'' @ ''='' @ v)
           = Inr (Some (Some NameAction, ''--name'', Some ''='', Some v))"
    by (simp add: parse_optional_def option_string_actions_def prefix_chars_def
                  str_partition_def allow_abbrev_def startswith_def)
  ultimately show ?thesis using assms by auto
qed

lemma abbreviation_no_space:
  assumes "flag = ''--n'' \<or> flag = ''--na'' \<or> flag = ''--nam'' \<or> flag = ''--name''"
  shows "\<forall>c\<in>set flag. \<not> isspace c" and "flag \<noteq> []"
  using assms by (auto simp: isspace_def)

text \<open>
  C10: the name flag is also taken in abbreviated form and in the form with an equals
  sign. For every prefix \<open>flag\<close> of \<^verbatim>\<open>--name\<close> of at least three characters (\<^verbatim>\<open>--n\<close>,
  \<^verbatim>\<open>--na\<close>, \<^verbatim>\<open>--nam\<close>, \<^verbatim>\<open>--name\<close>) and every non-empty value \<open>v\<close> without whitespace
  other than \<^verbatim>\<open>--\<close>, the variable set to \<open>flag\<close>, a space and \<open>v\<close> (with \<open>v\<close> a plain
  argument), or to \<open>flag\<close>, an equals sign and \<open>v\<close>, makes standard output receive the
  line \<^verbatim>\<open>DEMO_GREETING="Hello, v!"\<close>; so \<^verbatim>\<open>--n Ada\<close> gives \<^verbatim>\<open>DEMO_GREETING="Hello, Ada!"\<close>.
  The value \<^verbatim>\<open>--\<close> is left out because releases of argparse differ on it.
\<close>

theorem name_flag_abbreviated:
  assumes "startswith ''--name'' flag" and "3 \<le> length flag"
    and "list_all (\<lambda>c. \<not> isspace c) v" and "v \<noteq> []" and "v \<noteq> ''--''"
  shows "(parse_optional v = Inr None \<and>
          environ w ''UBER_GLOBAL_COMMAND_ARGS'' = Some (flag @ '' '' @ v) \<longrightarrow>
            stdout (snd (main w)) =
              stdout w @ [Text (''DEMO_GREETING=\"Hello, '' @ v @ ''!\"\<newline>'')]) \<and>
         (environ w ''UBER_GLOBAL_COMMAND_ARGS'' = Some (flag @ ''='' @ v) \<longrightarrow>
            stdout (snd (main w)) =
              stdout w @ [Text (''DEMO_GREETING=\"Hello, '' @ v @ ''!\"\<newline>'')])"
proof -
  note flag = name_prefixes [OF assms(1,2)]
  have v: "\<forall>c\<in>set v. \<not> isspace c" using assms(3) by (simp add: list_all_iff)
  show ?thesis
  proof (intro conjI impI)
    assume a: "parse_optional v = Inr None \<and>
          environ w ''UBER_GLOBAL_COMMAND_ARGS'' = Some (flag @ '' '' @ v)"
    have "str_split (flag @ '' '' @ v) = [flag, v]"
      using abbreviation_no_space [OF flag] v assms(4) by (intro str_split_two_words)
    moreover have "parse_known_args ([] @ [flag, v] @ []) = Inr (\<lparr>name = Some v\<rparr>, [] @ [])"
      using parse_optional_abbreviation [OF flag] a
      by (intro parse_name_following) simp_all
    ultimately have "parse_known_args (str_split (flag @ '' '' @ v)) = Inr (\<lparr>name = Some v\<rparr>, [])"
      by simp
    from greeting_of_name [OF _ this _ assms(4)] a
    show "stdout (snd (main w)) =
              stdout w @ [Text (''DEMO_GREETING=\"Hello, '' @ v @ ''!\"\<newline>'')]"
      by simp
  next
    assume a: "environ w ''UBER_GLOBAL_COMMAND_ARGS'' = Some (flag @ ''='' @ v)"
    have "\<forall>c\<in>set (flag @ ''='' @ v). \<not> isspace c"
      using abbreviation_no_space(1) [OF flag] v by (auto simp: isspace_def)
    then have "str_split (flag @ ''='' @ v) = [flag @ ''='' @ v]"
      by (intro str_split_word) simp_all
    moreover have "parse_known_args ([] @ [flag @ ''='' @ v] @ [])
                     = Inr (\<lparr>name = Some v\<rparr>, [] @ [])"
      using parse_optional_equals_form [OF flag, of v]
      by (intro parse_name_explicit) simp_all
    ultimately have "parse_known_args (str_split (flag @ ''='' @ v))
                       = Inr (\<lparr>name = Some v\<rparr>, [])"
      by simp
    from greeting_of_name [OF a this _ assms(4)]
    show "stdout (snd (main w)) =
              stdout w @ [Text (''DEMO_GREETING=\"Hello, '' @ v @ ''!\"\<newline>'')]"
      by simp
  qed
qed

theorem name_flag_abbreviated_witness:
  "startswith ''--name'' ''--n'' \<and> 3 \<le> length ''--n''
   \<and> list_all (\<lambda>c. \<not> isspace c) ''Ada'' \<and> ''Ada'' \<noteq> [] \<and> ''Ada'' \<noteq> ''--''
   \<and> parse_optional ''Ada'' = Inr None
   \<and> environ (start (Some ''--n Ada'')) ''UBER_GLOBAL_COMMAND_ARGS'' = Some (''--n'' @ '' '' @ ''Ada'')
   \<and> stdout (snd (main (start (Some ''--n Ada''))))
       = [Text ''DEMO_GREETING=\"Hello, Ada!\"\<newline>'']
   \<and> environ (start (Some ''--n=Ada'')) ''UBER_GLOBAL_COMMAND_ARGS'' = Some (''--n'' @ ''='' @ ''Ada'')
   \<and> stdout (snd (main (start (Some ''--n=Ada''))))
       = [Text ''DEMO_GREETING=\"Hello, Ada!\"\<newline>'']"
proof -
  have 1: "startswith ''--name'' ''--n''" by code_simp
  have 2: "3 \<le> length ''--n''" by simp
  have 3: "list_all (\<lambda>c. \<not> isspace c) ''Ada''" by code_simp
  have 4: "''Ada'' \<noteq> []" by simp
  have 5: "parse_optional ''Ada'' = Inr None" by code_simp
  have 8: "''Ada'' \<noteq> ''--''" by simp
  from name_flag_abbreviated [OF 1 2 3 4 8, of "start (Some ''--n Ada'')"] 5
  have 6: "stdout (snd (main (start (Some ''--n Ada''))))
       = [Text ''DEMO_GREETING=\"Hello, Ada!\"\<newline>'']" by simp
  from name_flag_abbreviated [OF 1 2 3 4 8, of "start (Some ''--n=Ada'')"]
  have 7: "stdout (snd (main (start (Some ''--n=Ada''))))
       = [Text ''DEMO_GREETING=\"Hello, Ada!\"\<newline>'']" by simp
  from 1 2 3 4 5 6 7 8 show ?thesis by simp
qed

end
